theory Spec2Isabelle
  imports Main "HOL-Library.AList"
begin

section \<open>JavaScript strings\<close>

text \<open>
  A JavaScript string is a sequence of UTF-16 code units; \<open>length\<close>, \<open>slice\<close>,
  \<open>substring\<close>, \<open>split\<close> and indexing all count code units. A code unit is modelled
  as a natural number (below 65536 in a real string; nothing below depends on the bound)
  and a string as a list of them. \<open>js\<close> turns an Isabelle literal into such a string.
\<close>

type_synonym jschar = nat
type_synonym jsstring = "jschar list"

definition js :: "string \<Rightarrow> jsstring" where
  "js s = map of_char s"

abbreviation slash :: jschar where "slash \<equiv> 47"

text \<open>\<open>s.split(c)\<close> for a one-character separator: n separators give n + 1 pieces.\<close>

fun js_split :: "jschar \<Rightarrow> jsstring \<Rightarrow> jsstring list" where
  "js_split c [] = [[]]"
| "js_split c (x # xs) =
     (if x = c then [] # js_split c xs
      else (case js_split c xs of [] \<Rightarrow> [[x]] | s # ss \<Rightarrow> (x # s) # ss))"

text \<open>\<open>parts.join(c)\<close> for a one-character separator.\<close>

fun js_join :: "jschar \<Rightarrow> jsstring list \<Rightarrow> jsstring" where
  "js_join c [] = []"
| "js_join c [s] = s"
| "js_join c (s # t # ss) = s @ c # js_join c (t # ss)"

definition startsWith :: "jsstring \<Rightarrow> jsstring \<Rightarrow> bool" where
  "startsWith s p = (take (length p) s = p)"

text \<open>\<open>s.lastIndexOf(c)\<close>: the last position of \<open>c\<close>, or -1.\<close>

fun lastIndexOf :: "jsstring \<Rightarrow> jschar \<Rightarrow> int" where
  "lastIndexOf [] c = -1"
| "lastIndexOf (x # xs) c =
     (let r = lastIndexOf xs c in
      if r \<ge> 0 then r + 1 else if x = c then 0 else -1)"

text \<open>
  \<open>s.substring(a, b)\<close> clamps both indices to \<open>[0, length]\<close> and swaps them when
  \<open>a > b\<close>; \<open>s.substring(a)\<close> runs to the end of the string.
\<close>

definition clampIndex :: "jsstring \<Rightarrow> int \<Rightarrow> nat" where
  "clampIndex s i = (if i < 0 then 0 else min (nat i) (length s))"

definition substring :: "jsstring \<Rightarrow> int \<Rightarrow> int \<Rightarrow> jsstring" where
  "substring s a b =
     (let a' = clampIndex s a; b' = clampIndex s b;
          lo = min a' b'; hi = max a' b'
      in take (hi - lo) (drop lo s))"

definition substringFrom :: "jsstring \<Rightarrow> int \<Rightarrow> jsstring" where
  "substringFrom s a = drop (clampIndex s a) s"

section \<open>The virtual file system\<close>

text \<open>
  A \<open>FileNode\<close> carries its type, name, content and child map. The child map is a
  JavaScript \<open>Map\<close>: an association list in insertion order, read with \<open>map_of\<close>,
  written with \<open>AList.update\<close> (replace in place or append) and \<open>AList.delete\<close>.

  Every node object is created by \<open>createNode\<close> and linked under one parent only, so
  the object graph is a tree and a node is identified by the keys walked from the root.
  A mutation of a node found by \<open>getNode\<close> is written back at those keys
  (\<open>modifyAt\<close>). The \<open>parent\<close> back-reference, the two time stamps and the cosmetic
  \<open>permissions\<close>, \<open>owner\<close> and \<open>group\<close> strings are read by none of the operations
  below and are left out.
\<close>

datatype FileType = File | Directory

datatype FileNode =
  FileNode (node_type: FileType) (node_name: jsstring) (node_content: jsstring)
           (node_children: "(jsstring \<times> FileNode) list")

record VFS =
  root :: FileNode
  currentPath :: jsstring

definition createNode :: "FileType \<Rightarrow> jsstring \<Rightarrow> jsstring \<Rightarrow> FileNode" where
  "createNode t n c = FileNode t n c []"

definition setChildren :: "FileNode \<Rightarrow> (jsstring \<times> FileNode) list \<Rightarrow> FileNode" where
  "setChildren n cs = FileNode (node_type n) (node_name n) (node_content n) cs"

definition setContent :: "FileNode \<Rightarrow> jsstring \<Rightarrow> FileNode" where
  "setContent n c = FileNode (node_type n) (node_name n) c (node_children n)"

subsection \<open>Path resolution\<close>

text \<open>\<open>result.pop()\<close> on an empty array returns \<open>undefined\<close> and leaves it empty.\<close>

definition pop :: "'a list \<Rightarrow> 'a list" where
  "pop xs = (if xs = [] then [] else butlast xs)"

fun normalizeLoop :: "jsstring list \<Rightarrow> jsstring list \<Rightarrow> jsstring list" where
  "normalizeLoop [] result = result"
| "normalizeLoop (part # parts) result =
     (if part = js ''..'' then normalizeLoop parts (pop result)
      else normalizeLoop parts (result @ [part]))"

definition normalizePath :: "jsstring \<Rightarrow> jsstring" where
  "normalizePath path =
     (let parts = filter (\<lambda>p. p \<noteq> [] \<and> p \<noteq> js ''.'') (js_split slash path)
      in slash # js_join slash (normalizeLoop parts []))"

definition resolvePath :: "VFS \<Rightarrow> jsstring \<Rightarrow> jsstring" where
  "resolvePath fs path =
     (if path = [] \<or> path = js ''~'' then js ''/home/guest''
      else if startsWith path (js ''/'') then normalizePath path
      else normalizePath (currentPath fs @ js ''/'' @ path))"

subsection \<open>Lookup\<close>

fun walk :: "FileNode \<Rightarrow> jsstring list \<Rightarrow> FileNode option" where
  "walk current [] = Some current"
| "walk current (part # parts) =
     (case map_of (node_children current) part of
        None \<Rightarrow> None
      | Some child \<Rightarrow> walk child parts)"

text \<open>The keys \<open>getNode\<close> walks: \<open>resolvedPath.split('/').filter(Boolean)\<close>.\<close>

definition pathParts :: "jsstring \<Rightarrow> jsstring list" where
  "pathParts resolvedPath = filter (\<lambda>p. p \<noteq> []) (js_split slash resolvedPath)"

definition getNode :: "VFS \<Rightarrow> jsstring \<Rightarrow> FileNode option" where
  "getNode fs path =
     (let resolvedPath = resolvePath fs path
      in if resolvedPath = js ''/'' then Some (root fs)
         else walk (root fs) (pathParts resolvedPath))"

text \<open>The place of the node \<open>getNode\<close> returns, as the keys from the root.\<close>

definition nodeKeys :: "VFS \<Rightarrow> jsstring \<Rightarrow> jsstring list" where
  "nodeKeys fs path =
     (let resolvedPath = resolvePath fs path
      in if resolvedPath = js ''/'' then [] else pathParts resolvedPath)"

fun modifyAt :: "jsstring list \<Rightarrow> (FileNode \<Rightarrow> FileNode) \<Rightarrow> FileNode \<Rightarrow> FileNode" where
  "modifyAt [] f n = f n"
| "modifyAt (k # ks) f n =
     (case map_of (node_children n) k of
        None \<Rightarrow> n
      | Some c \<Rightarrow> setChildren n (AList.update k (modifyAt ks f c) (node_children n)))"

subsection \<open>Mutating operations\<close>

text \<open>
  \<open>mkdir\<close>, \<open>writeFile\<close> and \<open>rm\<close> split the resolved path at its last slash:
  \<open>resolvedPath.substring(0, resolvedPath.lastIndexOf('/')) || '/'\<close> and
  \<open>resolvedPath.substring(resolvedPath.lastIndexOf('/') + 1)\<close>.
\<close>

definition parentPathOf :: "jsstring \<Rightarrow> jsstring" where
  "parentPathOf resolvedPath =
     (let s = substring resolvedPath 0 (lastIndexOf resolvedPath slash)
      in if s = [] then js ''/'' else s)"

definition lastNameOf :: "jsstring \<Rightarrow> jsstring" where
  "lastNameOf resolvedPath = substringFrom resolvedPath (lastIndexOf resolvedPath slash + 1)"

definition mkdir :: "VFS \<Rightarrow> jsstring \<Rightarrow> bool \<times> VFS" where
  "mkdir fs path =
     (let resolvedPath = resolvePath fs path;
          parentPath = parentPathOf resolvedPath;
          dirName = lastNameOf resolvedPath
      in case getNode fs parentPath of
           None \<Rightarrow> (False, fs)
         | Some parent \<Rightarrow>
             if node_type parent \<noteq> Directory then (False, fs)
             else if map_of (node_children parent) dirName \<noteq> None then (False, fs)
             else (True, fs\<lparr>root := modifyAt (nodeKeys fs parentPath)
                      (\<lambda>p. setChildren p (AList.update dirName
                              (createNode Directory dirName []) (node_children p)))
                      (root fs)\<rparr>))"

definition writeFile :: "VFS \<Rightarrow> jsstring \<Rightarrow> jsstring \<Rightarrow> bool \<times> VFS" where
  "writeFile fs path content =
     (let resolvedPath = resolvePath fs path;
          parentPath = parentPathOf resolvedPath;
          fileName = lastNameOf resolvedPath
      in case getNode fs parentPath of
           None \<Rightarrow> (False, fs)
         | Some parent \<Rightarrow>
             if node_type parent \<noteq> Directory then (False, fs)
             else (case map_of (node_children parent) fileName of
                Some existing \<Rightarrow>
                  if node_type existing \<noteq> File then (False, fs)
                  else (True, fs\<lparr>root := modifyAt (nodeKeys fs parentPath)
                      (\<lambda>p. setChildren p (AList.update fileName
                              (setContent existing content) (node_children p)))
                      (root fs)\<rparr>)
              | None \<Rightarrow>
                  (True, fs\<lparr>root := modifyAt (nodeKeys fs parentPath)
                      (\<lambda>p. setChildren p (AList.update fileName
                              (createNode File fileName content) (node_children p)))
                      (root fs)\<rparr>)))"

definition readFile :: "VFS \<Rightarrow> jsstring \<Rightarrow> jsstring option" where
  "readFile fs path =
     (case getNode fs path of
        None \<Rightarrow> None
      | Some node \<Rightarrow> if node_type node \<noteq> File then None else Some (node_content node))"

definition rm :: "VFS \<Rightarrow> jsstring \<Rightarrow> bool \<Rightarrow> bool \<times> VFS" where
  "rm fs path recursive =
     (let resolvedPath = resolvePath fs path;
          parentPath = parentPathOf resolvedPath;
          name = lastNameOf resolvedPath
      in case getNode fs parentPath of
           None \<Rightarrow> (False, fs)
         | Some parent \<Rightarrow>
            (case getNode fs resolvedPath of
               None \<Rightarrow> (False, fs)
             | Some node \<Rightarrow>
                 if node_type node = Directory \<and> length (node_children node) > 0
                    \<and> \<not> recursive
                 then (False, fs)
                 else (True, fs\<lparr>root := modifyAt (nodeKeys fs parentPath)
                      (\<lambda>p. setChildren p (AList.delete name (node_children p)))
                      (root fs)\<rparr>)))"

definition cd :: "VFS \<Rightarrow> jsstring \<Rightarrow> bool \<times> VFS" where
  "cd fs path =
     (let resolvedPath = resolvePath fs path
      in case getNode fs resolvedPath of
           None \<Rightarrow> (False, fs)
         | Some node \<Rightarrow>
             if node_type node \<noteq> Directory then (False, fs)
             else (True, fs\<lparr>currentPath := resolvedPath\<rparr>))"

definition pwd :: "VFS \<Rightarrow> jsstring" where
  "pwd fs = currentPath fs"

definition ls :: "VFS \<Rightarrow> jsstring option \<Rightarrow> FileNode list option" where
  "ls fs path =
     (let targetPath = (case path of None \<Rightarrow> currentPath fs
                        | Some p \<Rightarrow> if p = [] then currentPath fs else resolvePath fs p)
      in case getNode fs targetPath of
           None \<Rightarrow> None
         | Some node \<Rightarrow>
             if node_type node \<noteq> Directory then None
             else Some (map snd (node_children node)))"

subsection \<open>The constructor\<close>

definition initDefaultStructure :: "VFS \<Rightarrow> VFS" where
  "initDefaultStructure fs0 =
     (let fs = snd (mkdir fs0 (js ''/bin''));
          fs = snd (mkdir fs (js ''/etc''));
          fs = snd (mkdir fs (js ''/home''));
          fs = snd (mkdir fs (js ''/tmp''));
          fs = snd (mkdir fs (js ''/usr''));
          fs = snd (mkdir fs (js ''/var''));
          fs = snd (mkdir fs (js ''/root''));
          fs = snd (mkdir fs (js ''/proc''));
          fs = snd (mkdir fs (js ''/home/guest''));
          fs = fs\<lparr>currentPath := js ''/home/guest''\<rparr>;
          fs = snd (writeFile fs (js ''/etc/hostname'') (js ''midrai'' @ [10]));
          fs = snd (writeFile fs (js ''/etc/motd'')
                 (js ''Welcome to Midrai Terminal!'' @ [10]));
          fs = snd (writeFile fs (js ''/home/guest/.bashrc'')
                 (js ''# .bashrc'' @ [10] @ js ''export PS1='' @ [34, 92] @ js ''u@''
                  @ [92] @ js ''h:'' @ [92] @ js ''w'' @ [92] @ js ''$ '' @ [34, 10]));
          fs = snd (writeFile fs (js ''/home/guest/readme.txt'')
                 (js ''Welcome to the fake terminal!'' @ [10, 10]
                  @ js ''Try typing some commands like:'' @ [10]
                  @ js ''  ls, cd, pwd, cat, echo, mkdir, touch, rm'' @ [10]))
      in fs)"

definition newVFS :: VFS where
  "newVFS = initDefaultStructure \<lparr>root = createNode Directory [] [], currentPath = js ''/''\<rparr>"

text \<open>
  The normalisation as the specification words it: split on the slash, drop empty and
  \<open>.\<close> segments, and for each \<open>..\<close> pop the last retained segment, a pop with
  nothing retained doing nothing. \<open>kept\<close> holds the retained segments, newest first.
\<close>

fun retained :: "jsstring list \<Rightarrow> jsstring list \<Rightarrow> jsstring list" where
  "retained [] kept = kept"
| "retained (seg # segs) kept =
     (if seg = [] \<or> seg = js ''.'' then retained segs kept
      else if seg = js ''..''
        then retained segs (case kept of [] \<Rightarrow> [] | _ # older \<Rightarrow> older)
      else retained segs (seg # kept))"

definition normalizeSpec :: "jsstring \<Rightarrow> jsstring" where
  "normalizeSpec path = slash # js_join slash (rev (retained (js_split slash path) []))"

text \<open>A segment of a normalised path: not empty, not \<open>.\<close>, not \<open>..\<close>, no slash.\<close>

definition normalSeg :: "jsstring \<Rightarrow> bool" where
  "normalSeg s = (s \<noteq> [] \<and> s \<noteq> js ''.'' \<and> s \<noteq> js ''..'' \<and> slash \<notin> set s)"

section \<open>The command dispatcher\<close>

subsection \<open>Character classes, trimming and the regular expressions\<close>

text \<open>
  \<open>String.prototype.trim\<close> and the class \<open>\s\<close> use the same set: the white space
  and line terminator code points of ECMAScript. The dot of a regular expression
  matches every code unit but the four line terminators.
\<close>

definition isWhiteSpace :: "jschar \<Rightarrow> bool" where
  "isWhiteSpace c =
     (c = 9 \<or> c = 10 \<or> c = 11 \<or> c = 12 \<or> c = 13 \<or> c = 32 \<or> c = 160 \<or> c = 5760
      \<or> (8192 \<le> c \<and> c \<le> 8202) \<or> c = 8232 \<or> c = 8233 \<or> c = 8239 \<or> c = 8287
      \<or> c = 12288 \<or> c = 65279)"

definition isLineTerminator :: "jschar \<Rightarrow> bool" where
  "isLineTerminator c = (c = 10 \<or> c = 13 \<or> c = 8232 \<or> c = 8233)"

definition js_trim :: "jsstring \<Rightarrow> jsstring" where
  "js_trim s = rev (dropWhile isWhiteSpace (rev (dropWhile isWhiteSpace s)))"

definition isIdentStart :: "jschar \<Rightarrow> bool" where
  "isIdentStart c = ((65 \<le> c \<and> c \<le> 90) \<or> (97 \<le> c \<and> c \<le> 122) \<or> c = 95)"

definition isIdentChar :: "jschar \<Rightarrow> bool" where
  "isIdentChar c = (isIdentStart c \<or> (48 \<le> c \<and> c \<le> 57))"

text \<open>\<open>/^[A-Za-z_]/\<close>\<close>

definition matchesIdentStart :: "jsstring \<Rightarrow> bool" where
  "matchesIdentStart s = (case s of [] \<Rightarrow> False | c # _ \<Rightarrow> isIdentStart c)"

text \<open>\<open>/^[A-Za-z_][A-Za-z0-9_]*$/\<close>\<close>

definition matchesIdentifier :: "jsstring \<Rightarrow> bool" where
  "matchesIdentifier s = (case s of [] \<Rightarrow> False | c # cs \<Rightarrow> isIdentStart c \<and> list_all isIdentChar cs)"

text \<open>
  \<open>/^([A-Za-z_][A-Za-z0-9_]*)=(\S+)\s+(.+)$/\<close>, with its three groups. The name is
  the longest run of identifier characters, since the character after it has to be
  \<open>=\<close>; the value is the longest run of non-space characters, since the character
  after it has to be a space. \<open>\s+\<close> is greedy: it first takes the whole run of spaces
  and gives characters back, one at a time, while the rest of the line is empty or holds
  a line terminator.
\<close>

definition assignmentMatch :: "jsstring \<Rightarrow> (jsstring \<times> jsstring \<times> jsstring) option" where
  "assignmentMatch s =
     (let name = takeWhile isIdentChar s; afterName = dropWhile isIdentChar s
      in if \<not> matchesIdentStart name then None
         else (case afterName of
            [] \<Rightarrow> None
          | eq # afterEq \<Rightarrow>
              if eq \<noteq> 61 then None
              else
                let val = takeWhile (\<lambda>c. \<not> isWhiteSpace c) afterEq;
                    afterVal = dropWhile (\<lambda>c. \<not> isWhiteSpace c) afterEq;
                    spaces = takeWhile isWhiteSpace afterVal;
                    afterSpaces = dropWhile isWhiteSpace afterVal
                in if val = [] then None
                   else (case find (\<lambda>j. drop j spaces @ afterSpaces \<noteq> []
                                      \<and> \<not> list_ex isLineTerminator (drop j spaces @ afterSpaces))
                                (rev [1 ..< Suc (length spaces)]) of
                      None \<Rightarrow> None
                    | Some j \<Rightarrow> Some (name, val, drop j spaces @ afterSpaces))))"

subsection \<open>Tokenizer\<close>

text \<open>
  \<open>for (const char of input)\<close> walks the string by code points: a high surrogate
  followed by a low surrogate is one step of two code units.
\<close>

fun codePoints :: "jsstring \<Rightarrow> jsstring list" where
  "codePoints [] = []"
| "codePoints [x] = [[x]]"
| "codePoints (x # y # r) =
     (if 55296 \<le> x \<and> x \<le> 56319 \<and> 56320 \<le> y \<and> y \<le> 57343
      then [x, y] # codePoints r else [x] # codePoints (y # r))"

record tokenizer =
  tk_tokens :: "jsstring list"
  tk_current :: jsstring
  tk_inQuote :: "jsstring option"
  tk_escaped :: bool

definition tokenizeStep :: "tokenizer \<Rightarrow> jsstring \<Rightarrow> tokenizer" where
  "tokenizeStep t char =
     (if tk_escaped t then t\<lparr>tk_current := tk_current t @ char, tk_escaped := False\<rparr>
      else if char = [92] then t\<lparr>tk_escaped := True\<rparr>
      else if char = [34] \<or> char = [39] then
        (case tk_inQuote t of
           None \<Rightarrow> t\<lparr>tk_inQuote := Some char\<rparr>
         | Some q \<Rightarrow> if q = char then t\<lparr>tk_inQuote := None\<rparr>
                     else t\<lparr>tk_current := tk_current t @ char\<rparr>)
      else if char = [32] \<and> tk_inQuote t = None then
        (if tk_current t \<noteq> [] then t\<lparr>tk_tokens := tk_tokens t @ [tk_current t], tk_current := []\<rparr>
         else t)
      else t\<lparr>tk_current := tk_current t @ char\<rparr>)"

definition tokenize :: "jsstring \<Rightarrow> jsstring list" where
  "tokenize input =
     (let t = foldl tokenizeStep
                \<lparr>tk_tokens = [], tk_current = [], tk_inQuote = None, tk_escaped = False\<rparr>
                (codePoints input)
      in if tk_current t \<noteq> [] then tk_tokens t @ [tk_current t] else tk_tokens t)"

text \<open>
  The loop of \<open>parseInput\<close> over \<open>tokens[1..]\<close>; \<open>flags\<close> is a JavaScript \<open>Set\<close>.
\<close>

fun parseLoop :: "jsstring list \<Rightarrow> jsstring list \<times> jsstring set \<Rightarrow> jsstring list \<times> jsstring set" where
  "parseLoop [] (args, flags) = (args, flags)"
| "parseLoop (token # rest) (args, flags) =
     (if startsWith token (js ''--'') then
        parseLoop rest (args, insert (substringFrom token 2) flags)
      else if startsWith token (js ''-'') \<and> length token > 1 then
        parseLoop rest (args, foldl (\<lambda>fl c. insert [c] fl) flags (drop 1 token))
      else parseLoop rest (args @ [token], flags))"

definition parseInput :: "jsstring \<Rightarrow> jsstring \<times> jsstring list \<times> jsstring set" where
  "parseInput input =
     (let tokens = tokenize input;
          command = (case tokens of [] \<Rightarrow> [] | t # _ \<Rightarrow> t)
      in (command, parseLoop (drop 1 tokens) ([], {})))"

text \<open>
  The three kinds of token after the command, as the specification words them: a long
  flag \<open>--name\<close>, a group of short flags \<open>-xyz\<close> that is longer than the single
  \<open>-\<close>, and every other token, a positional argument.
\<close>

definition isLongFlag :: "jsstring \<Rightarrow> bool" where
  "isLongFlag token = startsWith token (js ''--'')"

definition isShortFlags :: "jsstring \<Rightarrow> bool" where
  "isShortFlags token = (\<not> isLongFlag token \<and> startsWith token (js ''-'') \<and> length token > 1)"

definition isPositional :: "jsstring \<Rightarrow> bool" where
  "isPositional token = (\<not> isLongFlag token \<and> \<not> isShortFlags token)"

definition flagsOf :: "jsstring \<Rightarrow> jsstring set" where
  "flagsOf token =
     (if isLongFlag token then {drop 2 token}
      else if isShortFlags token then (\<lambda>c. [c]) ` set (tl token)
      else {})"

subsection \<open>Commands and execution\<close>

text \<open>
  The output sink is the list of the calls made on it. A command handler reads its
  context and returns an exit status or throws, an \<open>Error\<close> with its message or some
  other value; what it did to the file system and the sink comes back with the outcome.
\<close>

datatype out_call =
  Out_print jsstring | Out_println jsstring | Out_error jsstring
  | Out_warn jsstring | Out_success jsstring | Out_clear

record CommandContext =
  ctx_vfs :: VFS
  ctx_env :: "jsstring \<rightharpoonup> jsstring"
  ctx_output :: "out_call list"
  ctx_cwd :: jsstring
  ctx_args :: "jsstring list"
  ctx_flags :: "jsstring set"

datatype outcome = Returned int | Thrown "jsstring option"

record CommandDefinition =
  cmd_name :: jsstring
  cmd_description :: jsstring
  cmd_usage :: jsstring
  cmd_execute :: "CommandContext \<Rightarrow> outcome \<times> VFS \<times> out_call list"
  cmd_complete :: "(jsstring \<Rightarrow> CommandContext \<Rightarrow> jsstring list) option"

record CLI =
  commands :: "(jsstring \<times> CommandDefinition) list"
  vfs :: VFS
  env :: "jsstring \<rightharpoonup> jsstring"
  outputSink :: "out_call list"

definition registerCommand :: "CLI \<Rightarrow> CommandDefinition \<Rightarrow> CLI" where
  "registerCommand c cmd = c\<lparr>commands := AList.update (cmd_name cmd) cmd (commands c)\<rparr>"

text \<open>
  The constructor of \<open>CLI\<close> starts with an empty registry. \<open>defaultEnv\<close> is the
  environment \<open>FakeShell\<close> builds when its options give none.
\<close>

definition newCLI :: "VFS \<Rightarrow> (jsstring \<rightharpoonup> jsstring) \<Rightarrow> out_call list \<Rightarrow> CLI" where
  "newCLI fs e out = \<lparr>commands = [], vfs = fs, env = e, outputSink = out\<rparr>"

definition defaultEnv :: "jsstring \<rightharpoonup> jsstring" where
  "defaultEnv =
     [js ''USER'' \<mapsto> js ''guest'', js ''HOSTNAME'' \<mapsto> js ''midrai'',
      js ''HOME'' \<mapsto> js ''/home/guest'',
      js ''PATH'' \<mapsto> js ''/usr/local/bin:/usr/bin:/bin'',
      js ''PWD'' \<mapsto> js ''/home/guest'']"

text \<open>
  The block of \<open>execute\<close> commented as the environment assignment: it returns the
  variable and the value it stores, or \<open>None\<close> when the line falls through.
\<close>

definition envAssignment :: "jsstring \<Rightarrow> (jsstring \<times> jsstring) option" where
  "envAssignment trimmed =
     (if 61 \<in> set trimmed \<and> \<not> matchesIdentStart trimmed then
        (case js_split 61 trimmed of
           [] \<Rightarrow> None
         | varName # rest \<Rightarrow>
             if length rest > 0 \<and> matchesIdentifier varName
             then Some (varName, filter (\<lambda>c. c \<noteq> 34 \<and> c \<noteq> 39) (js_join 61 rest))
             else None)
      else None)"

text \<open>
  \<open>obj[key] = value\<close> on a plain object and a string value: the key
  \<open>__proto__\<close> is the prototype accessor, which ignores a string and creates no own
  property; every other key is stored.
\<close>

definition setProperty ::
  "(jsstring \<rightharpoonup> jsstring) \<Rightarrow> jsstring \<Rightarrow> jsstring \<Rightarrow> (jsstring \<rightharpoonup> jsstring)" where
  "setProperty obj key v = (if key = js ''__proto__'' then obj else obj(key \<mapsto> v))"

text \<open>The line that is tokenized and the one-shot environment in front of it.\<close>

definition commandLineOf :: "jsstring \<Rightarrow> jsstring" where
  "commandLineOf trimmed =
     (case assignmentMatch trimmed of None \<Rightarrow> trimmed | Some (n, v, rest) \<Rightarrow> rest)"

definition localEnvOf :: "jsstring \<Rightarrow> (jsstring \<rightharpoonup> jsstring)" where
  "localEnvOf trimmed =
     (case assignmentMatch trimmed of
        None \<Rightarrow> Map.empty
      | Some (n, v, rest) \<Rightarrow> setProperty Map.empty n v)"

definition execute :: "CLI \<Rightarrow> jsstring \<Rightarrow> int \<times> CLI" where
  "execute c input =
     (let trimmed = js_trim input
      in if trimmed = [] then (0, c)
         else
           let commandLine = commandLineOf trimmed;
               localEnv = localEnvOf trimmed;
               (command, args, flags) = parseInput commandLine
           in if command = [] then (0, c)
              else (case envAssignment trimmed of
                 Some (varName, v) \<Rightarrow> (0, c\<lparr>env := setProperty (env c) varName v\<rparr>)
               | None \<Rightarrow>
                  (case map_of (commands c) command of
                     None \<Rightarrow>
                       (127, c\<lparr>outputSink := outputSink c
                                 @ [Out_error (command @ js '': command not found'')]\<rparr>)
                   | Some cmd \<Rightarrow>
                       let context = \<lparr>ctx_vfs = vfs c, ctx_env = env c ++ localEnv,
                                      ctx_output = outputSink c, ctx_cwd = pwd (vfs c),
                                      ctx_args = args, ctx_flags = flags\<rparr>
                       in (case cmd_execute cmd context of
                             (Returned status, fs', out') \<Rightarrow>
                               (status, c\<lparr>vfs := fs', outputSink := out'\<rparr>)
                           | (Thrown msg, fs', out') \<Rightarrow>
                               (1, c\<lparr>vfs := fs', outputSink := out'
                                  @ [Out_error (command @ js '': '' @
                                      (case msg of Some m \<Rightarrow> m
                                       | None \<Rightarrow> js ''Unknown error''))]\<rparr>)))))"

definition endsWith :: "jsstring \<Rightarrow> jsstring \<Rightarrow> bool" where
  "endsWith s p = (length p \<le> length s \<and> drop (length s - length p) s = p)"

definition complete :: "CLI \<Rightarrow> jsstring \<Rightarrow> jsstring list" where
  "complete c input =
     (let (command, args, flags) = parseInput input
      in if length args = 0 \<and> \<not> endsWith input (js '' '') then
           filter (\<lambda>cmd. startsWith cmd command) (map fst (commands c))
         else
           let lastArg = (if args = [] then [] else last args)
           in (case (case map_of (commands c) command of
                       None \<Rightarrow> None | Some cmd \<Rightarrow> cmd_complete cmd) of
                 Some f \<Rightarrow>
                   f lastArg \<lparr>ctx_vfs = vfs c, ctx_env = env c, ctx_output = outputSink c,
                              ctx_cwd = pwd (vfs c), ctx_args = args, ctx_flags = {}\<rparr>
               | None \<Rightarrow>
                   let path = (if slash \<in> set lastArg
                               then substring lastArg 0 (lastIndexOf lastArg slash + 1)
                               else js ''.'');
                       prefix = (if slash \<in> set lastArg
                                 then substringFrom lastArg (lastIndexOf lastArg slash + 1)
                                 else lastArg);
                       entries = (case ls (vfs c) (Some path) of None \<Rightarrow> [] | Some es \<Rightarrow> es)
                   in map (\<lambda>entry.
                            (if slash \<in> set lastArg then path @ node_name entry
                             else node_name entry)
                            @ (if node_type entry = Directory then js ''/'' else []))
                        (filter (\<lambda>entry. startsWith (node_name entry) prefix) entries)))"

section \<open>The line editor\<close>

text \<open>
  \<open>FakeShell\<close> keeps the edit buffer, the cursor, the history and the busy flag. What
  it writes to the terminal (prompt, redraw, cursor movement) changes none of these
  fields and is left out. \<open>s.slice(a, b)\<close> counts a negative index from the end and
  clamps both to \<open>[0, length]\<close>; \<open>s.slice(a)\<close> runs to the end.
\<close>

definition sliceIndex :: "jsstring \<Rightarrow> int \<Rightarrow> nat" where
  "sliceIndex s i =
     (if i < 0 then nat (max (int (length s) + i) 0) else min (nat i) (length s))"

definition slice :: "jsstring \<Rightarrow> int \<Rightarrow> int \<Rightarrow> jsstring" where
  "slice s a b = (let from = sliceIndex s a; to = sliceIndex s b
                  in take (to - from) (drop from s))"

definition sliceFrom :: "jsstring \<Rightarrow> int \<Rightarrow> jsstring" where
  "sliceFrom s a = drop (sliceIndex s a) s"

text \<open>\<open>xs[i]\<close> is \<open>undefined\<close> outside the array.\<close>

definition at_index :: "'a list \<Rightarrow> int \<Rightarrow> 'a option" where
  "at_index xs i = (if 0 \<le> i \<and> i < int (length xs) then Some (xs ! nat i) else None)"

datatype js_error = TypeError

record FakeShell =
  cli :: CLI
  inputBuffer :: jsstring
  cursorPosition :: int
  commandHistory :: "jsstring list"
  historyIndex :: int
  isProcessing :: bool

text \<open>
  The constructor builds the CLI from its options and registers the built-in commands;
  here the CLI is a parameter. The editor fields start as their initialisers say.
\<close>

definition newFakeShell :: "CLI \<Rightarrow> FakeShell" where
  "newFakeShell c =
     \<lparr>cli = c, inputBuffer = [], cursorPosition = 0, commandHistory = [],
      historyIndex = -1, isProcessing = False\<rparr>"

definition insertChar :: "FakeShell \<Rightarrow> jsstring \<Rightarrow> FakeShell" where
  "insertChar s char =
     (let before = slice (inputBuffer s) 0 (cursorPosition s);
          after = sliceFrom (inputBuffer s) (cursorPosition s)
      in s\<lparr>inputBuffer := before @ char @ after, cursorPosition := cursorPosition s + 1\<rparr>)"

definition handleBackspace :: "FakeShell \<Rightarrow> FakeShell" where
  "handleBackspace s =
     (if cursorPosition s > 0 then
        let before = slice (inputBuffer s) 0 (cursorPosition s - 1);
            after = sliceFrom (inputBuffer s) (cursorPosition s)
        in s\<lparr>inputBuffer := before @ after, cursorPosition := cursorPosition s - 1\<rparr>
      else s)"

definition handleDelete :: "FakeShell \<Rightarrow> FakeShell" where
  "handleDelete s =
     (if cursorPosition s < int (length (inputBuffer s)) then
        let before = slice (inputBuffer s) 0 (cursorPosition s);
            after = sliceFrom (inputBuffer s) (cursorPosition s + 1)
        in s\<lparr>inputBuffer := before @ after\<rparr>
      else s)"

definition handleCursorLeft :: "FakeShell \<Rightarrow> FakeShell" where
  "handleCursorLeft s =
     (if cursorPosition s > 0 then s\<lparr>cursorPosition := cursorPosition s - 1\<rparr> else s)"

definition handleCursorRight :: "FakeShell \<Rightarrow> FakeShell" where
  "handleCursorRight s =
     (if cursorPosition s < int (length (inputBuffer s))
      then s\<lparr>cursorPosition := cursorPosition s + 1\<rparr> else s)"

definition handleHome :: "FakeShell \<Rightarrow> FakeShell" where
  "handleHome s = s\<lparr>cursorPosition := 0\<rparr>"

definition handleEnd :: "FakeShell \<Rightarrow> FakeShell" where
  "handleEnd s = s\<lparr>cursorPosition := int (length (inputBuffer s))\<rparr>"

text \<open>
  Reading \<open>commandHistory\<close> outside its bounds gives \<open>undefined\<close>, and the
  \<open>.length\<close> of it on the next line throws.
\<close>

definition handleHistoryUp :: "FakeShell \<Rightarrow> js_error + FakeShell" where
  "handleHistoryUp s =
     (if historyIndex s < int (length (commandHistory s)) - 1 then
        let hi = historyIndex s + 1
        in (case at_index (commandHistory s) (int (length (commandHistory s)) - 1 - hi) of
              None \<Rightarrow> Inl TypeError
            | Some entry \<Rightarrow>
                Inr (s\<lparr>historyIndex := hi, inputBuffer := entry,
                       cursorPosition := int (length entry)\<rparr>))
      else Inr s)"

definition handleHistoryDown :: "FakeShell \<Rightarrow> js_error + FakeShell" where
  "handleHistoryDown s =
     (if historyIndex s > 0 then
        let hi = historyIndex s - 1
        in (case at_index (commandHistory s) (int (length (commandHistory s)) - 1 - hi) of
              None \<Rightarrow> Inl TypeError
            | Some entry \<Rightarrow>
                Inr (s\<lparr>historyIndex := hi, inputBuffer := entry,
                       cursorPosition := int (length entry)\<rparr>))
      else if historyIndex s = 0 then
        Inr (s\<lparr>historyIndex := -1, inputBuffer := [], cursorPosition := 0\<rparr>)
      else Inr s)"

definition handleTab :: "FakeShell \<Rightarrow> FakeShell" where
  "handleTab s =
     (let completions = complete (cli s) (inputBuffer s)
      in if length completions = 1 then
           let lastSpace = lastIndexOf (inputBuffer s) 32;
               buf = (if lastSpace = -1 then hd completions @ js '' ''
                      else slice (inputBuffer s) 0 (lastSpace + 1) @ hd completions)
           in s\<lparr>inputBuffer := buf, cursorPosition := int (length buf)\<rparr>
         else s)"

definition clearLine :: "FakeShell \<Rightarrow> FakeShell" where
  "clearLine s = s\<lparr>inputBuffer := [], cursorPosition := 0\<rparr>"

text \<open>
  \<open>executeCommand\<close> is asynchronous. Up to its \<open>await\<close> it runs inside the input
  event: it records the history entry and either returns (\<open>exit\<close>), or sets the busy
  flag and starts the command, or, with nothing to run, clears the buffer at once.
  The part after the \<open>await\<close> runs when the command has settled
  (\<open>executeCommandResumed\<close>); the command's effects on the CLI are recorded with the
  start.
\<close>

definition executeCommand :: "FakeShell \<Rightarrow> FakeShell" where
  "executeCommand s =
     (let command = js_trim (inputBuffer s)
      in if command \<noteq> [] then
           let s1 = s\<lparr>commandHistory := commandHistory s @ [command], historyIndex := -1\<rparr>
           in if command = js ''exit'' then s1
              else s1\<lparr>isProcessing := True, cli := snd (execute (cli s1) command)\<rparr>
         else s\<lparr>inputBuffer := [], cursorPosition := 0\<rparr>)"

definition executeCommandResumed :: "FakeShell \<Rightarrow> FakeShell" where
  "executeCommandResumed s = s\<lparr>isProcessing := False, inputBuffer := [], cursorPosition := 0\<rparr>"

definition handleInput :: "FakeShell \<Rightarrow> jsstring \<Rightarrow> js_error + FakeShell" where
  "handleInput s data =
     (if isProcessing s then Inr s
      else if data = [13] then Inr (executeCommand s)
      else if data = [127] \<or> data = [8] then Inr (handleBackspace s)
      else if data = [27, 91, 51, 126] then Inr (handleDelete s)
      else if data = [27, 91, 65] then handleHistoryUp s
      else if data = [27, 91, 66] then handleHistoryDown s
      else if data = [27, 91, 67] then Inr (handleCursorRight s)
      else if data = [27, 91, 68] then Inr (handleCursorLeft s)
      else if data = [27, 91, 72] \<or> data = [1] then Inr (handleHome s)
      else if data = [27, 91, 70] \<or> data = [5] then Inr (handleEnd s)
      else if data = [12] then Inr s
      else if data = [9] then Inr (handleTab s)
      else if data = [21] then Inr (clearLine s)
      else if (case data of [] \<Rightarrow> False | code # _ \<Rightarrow> code \<ge> 32) \<or> length data > 1
        then Inr (insertChar s data)
      else Inr s)"

text \<open>
  \<open>terminal.onData\<close> hands the input events to \<open>handleInput\<close> one at a time, in
  the order they arrive; an exception ends the run.
\<close>

fun inputs :: "FakeShell \<Rightarrow> jsstring list \<Rightarrow> js_error + FakeShell" where
  "inputs s [] = Inr s"
| "inputs s (data # later) =
     (case handleInput s data of Inl e \<Rightarrow> Inl e | Inr s' \<Rightarrow> inputs s' later)"

text \<open>The bounds the editor keeps on its cursor and its history position.\<close>

definition editorInvariant :: "FakeShell \<Rightarrow> bool" where
  "editorInvariant s =
     (0 \<le> cursorPosition s \<and> cursorPosition s \<le> int (length (inputBuffer s))
      \<and> -1 \<le> historyIndex s \<and> historyIndex s \<le> int (length (commandHistory s)) - 1)"

text \<open>
  The states a session goes through: the constructor's, then one input event after
  another, and the resumption of \<open>executeCommand\<close> while the shell is busy.
\<close>

inductive reachable :: "FakeShell \<Rightarrow> bool" where
  start: "reachable (newFakeShell c)"
| input: "reachable s \<Longrightarrow> handleInput s data = Inr s' \<Longrightarrow> reachable s'"
| resumed: "reachable s \<Longrightarrow> isProcessing s \<Longrightarrow> reachable (executeCommandResumed s)"

section \<open>Properties of strings and paths\<close>

lemma js_split_not_Nil [simp]: "js_split c xs \<noteq> []"
  by (induction xs) (auto split: list.splits)

lemma js_split_no_sep: "s \<in> set (js_split c xs) \<Longrightarrow> c \<notin> set s"
proof (induction xs arbitrary: s)
  case Nil
  then show ?case by simp
next
  case (Cons x xs)
  show ?case
  proof (cases "x = c")
    case True
    with Cons show ?thesis by auto
  next
    case False
    obtain t ts where ts: "js_split c xs = t # ts"
      by (cases "js_split c xs") auto
    with Cons False show ?thesis by auto
  qed
qed

lemma js_split_append_sep:
  "c \<notin> set s \<Longrightarrow> js_split c (s @ c # rest) = s # js_split c rest"
  by (induction s) (auto split: list.splits)

lemma js_split_no_sep_id: "c \<notin> set s \<Longrightarrow> js_split c s = [s]"
  by (induction s) (auto split: list.splits)

lemma js_split_join:
  "ss \<noteq> [] \<Longrightarrow> \<forall>s \<in> set ss. c \<notin> set s \<Longrightarrow> js_split c (js_join c ss) = ss"
proof (induction c ss rule: js_join.induct)
  case (1 c)
  then show ?case by simp
next
  case (2 c s)
  then show ?case by (simp add: js_split_no_sep_id)
next
  case (3 c s t ss)
  then show ?case by (simp add: js_split_append_sep)
qed

lemma pop_snoc [simp]: "pop (xs @ [x]) = xs"
  by (simp add: pop_def)

lemma pop_Nil [simp]: "pop [] = []"
  by (simp add: pop_def)

lemma normalizeLoop_retained:
  "normalizeLoop (filter (\<lambda>p. p \<noteq> [] \<and> p \<noteq> js ''.'') segs) (rev kept)
     = rev (retained segs kept)"
proof (induction segs arbitrary: kept)
  case Nil
  then show ?case by simp
next
  case (Cons seg segs)
  show ?case
  proof (cases "seg = [] \<or> seg = js ''.''")
    case True
    then show ?thesis using Cons.IH [of kept] by auto
  next
    case False
    show ?thesis
    proof (cases "seg = js ''..''")
      case True
      show ?thesis
      proof (cases kept)
        case Nil
        with True False Cons.IH [of "[]"] show ?thesis by simp
      next
        case (Cons k older)
        with True False Cons.IH [of older] show ?thesis by simp
      qed
    next
      case notdd: False
      with False Cons.IH [of "seg # kept"] show ?thesis by simp
    qed
  qed
qed

lemma normalizePath_spec: "normalizePath path = normalizeSpec path"
  using normalizeLoop_retained [of "js_split slash path" "[]"]
  by (simp add: normalizePath_def normalizeSpec_def)

lemma normalizeLoop_normal:
  "\<forall>s \<in> set parts. s \<noteq> [] \<and> s \<noteq> js ''.'' \<and> slash \<notin> set s \<Longrightarrow>
   \<forall>s \<in> set result. normalSeg s \<Longrightarrow>
   \<forall>s \<in> set (normalizeLoop parts result). normalSeg s"
proof (induction parts arbitrary: result)
  case Nil
  then show ?case by simp
next
  case (Cons part parts)
  show ?case
  proof (cases "part = js ''..''")
    case True
    have "\<forall>s \<in> set (pop result). normalSeg s"
      using Cons.prems(2) by (auto simp: pop_def dest: in_set_butlastD)
    moreover have "\<forall>s \<in> set parts. s \<noteq> [] \<and> s \<noteq> js ''.'' \<and> slash \<notin> set s"
      using Cons.prems(1) by simp
    ultimately have "\<forall>s \<in> set (normalizeLoop parts (pop result)). normalSeg s"
      by (rule Cons.IH [rotated])
    with True show ?thesis by simp
  next
    case False
    have "\<forall>s \<in> set (result @ [part]). normalSeg s"
      using Cons.prems False by (auto simp: normalSeg_def)
    moreover have "\<forall>s \<in> set parts. s \<noteq> [] \<and> s \<noteq> js ''.'' \<and> slash \<notin> set s"
      using Cons.prems(1) by simp
    ultimately have "\<forall>s \<in> set (normalizeLoop parts (result @ [part])). normalSeg s"
      by (rule Cons.IH [rotated])
    with False show ?thesis by simp
  qed
qed

lemma normalizeLoop_id:
  "js ''..'' \<notin> set parts \<Longrightarrow> normalizeLoop parts result = result @ parts"
  by (induction parts arbitrary: result) auto

lemma normalizePath_shape:
  "\<exists>segs. normalizePath path = slash # js_join slash segs \<and> (\<forall>s \<in> set segs. normalSeg s)"
proof -
  let ?parts = "filter (\<lambda>p. p \<noteq> [] \<and> p \<noteq> js ''.'') (js_split slash path)"
  have "\<forall>s \<in> set ?parts. s \<noteq> [] \<and> s \<noteq> js ''.'' \<and> slash \<notin> set s"
    by (auto dest: js_split_no_sep)
  then have "\<forall>s \<in> set (normalizeLoop ?parts []). normalSeg s"
    by (rule normalizeLoop_normal) simp
  then show ?thesis
    unfolding normalizePath_def Let_def by blast
qed

lemma normalizePath_fixed:
  assumes "\<forall>s \<in> set segs. normalSeg s"
  shows "normalizePath (slash # js_join slash segs) = slash # js_join slash segs"
proof (cases "segs = []")
  case True
  then show ?thesis by (simp add: normalizePath_def)
next
  case False
  have nosep: "\<forall>s \<in> set segs. slash \<notin> set s"
    using assms by (simp add: normalSeg_def)
  have split: "js_split slash (js_join slash segs) = segs"
    using False nosep by (rule js_split_join)
  have keep: "filter (\<lambda>p. p \<noteq> [] \<and> p \<noteq> js ''.'') segs = segs"
    using assms by (auto simp: normalSeg_def filter_id_conv)
  have nodd: "js ''..'' \<notin> set segs"
    using assms by (auto simp: normalSeg_def)
  show ?thesis
    by (simp add: normalizePath_def split keep normalizeLoop_id [OF nodd])
qed

lemma normalizePath_idem: "normalizePath (normalizePath path) = normalizePath path"
  using normalizePath_shape [of path] normalizePath_fixed by auto

lemma home_resolved: "normalizePath (js ''/home/guest'') = js ''/home/guest''"
  by code_simp

lemma resolvePath_cases:
  "resolvePath fs p = js ''/home/guest'' \<or> (\<exists>q. resolvePath fs p = normalizePath q)"
  by (auto simp: resolvePath_def)

lemma resolvePath_shape:
  "\<exists>segs. resolvePath fs p = slash # js_join slash segs \<and> (\<forall>s \<in> set segs. normalSeg s)"
proof -
  have "\<exists>segs. js ''/home/guest'' = slash # js_join slash segs \<and> (\<forall>s \<in> set segs. normalSeg s)"
    using normalizePath_shape [of "js ''/home/guest''"] home_resolved by simp
  then show ?thesis
    using resolvePath_cases [of fs p] normalizePath_shape by metis
qed

lemma resolvePath_normal_form:
  assumes "\<forall>s \<in> set segs. normalSeg s"
  shows "resolvePath fs (slash # js_join slash segs) = slash # js_join slash segs"
proof -
  have "slash # js_join slash segs \<noteq> js ''~''" "startsWith (slash # js_join slash segs) (js ''/'')"
    by (auto simp: js_def startsWith_def)
  then show ?thesis
    using assms by (simp add: resolvePath_def normalizePath_fixed)
qed

lemma resolvePath_resolved: "resolvePath fs' (resolvePath fs p) = resolvePath fs p"
  using resolvePath_shape [of fs p] resolvePath_normal_form by auto

lemma normalizePath_up_from_a_b: "normalizePath (js ''/a/b'' @ js ''/'' @ js ''..'') = js ''/a''"
  by code_simp

lemma normalizePath_up_from_root: "normalizePath (js ''/'' @ js ''/'' @ js ''..'') = js ''/''"
  by code_simp

section \<open>Properties of the file system operations\<close>

lemma lastIndexOf_absent: "c \<notin> set t \<Longrightarrow> lastIndexOf t c = -1"
  by (induction t) (auto simp: Let_def)

lemma lastIndexOf_last_occurrence:
  "c \<notin> set t \<Longrightarrow> lastIndexOf (h @ c # t) c = int (length h)"
  by (induction h) (auto simp: Let_def lastIndexOf_absent)

lemma js_join_snoc: "xs \<noteq> [] \<Longrightarrow> js_join c (xs @ [s]) = js_join c xs @ c # s"
  by (induction c xs rule: js_join.induct) auto

lemma js_join_eq_Nil: "\<forall>s \<in> set segs. s \<noteq> [] \<Longrightarrow> js_join c segs = [] \<longleftrightarrow> segs = []"
  by (induction c segs rule: js_join.induct) auto

lemma pathParts_normal:
  assumes "\<forall>s \<in> set segs. normalSeg s"
  shows "pathParts (slash # js_join slash segs) = segs"
proof (cases "segs = []")
  case True
  then show ?thesis by (simp add: pathParts_def)
next
  case False
  have "js_split slash (js_join slash segs) = segs"
    using False assms by (intro js_split_join) (auto simp: normalSeg_def)
  moreover have "filter (\<lambda>p. p \<noteq> []) segs = segs"
    using assms by (auto simp: normalSeg_def filter_id_conv)
  ultimately show ?thesis by (simp add: pathParts_def)
qed

lemma root_path_iff:
  assumes "\<forall>s \<in> set segs. normalSeg s"
  shows "slash # js_join slash segs = js ''/'' \<longleftrightarrow> segs = []"
proof -
  have "\<forall>s \<in> set segs. s \<noteq> []" using assms by (simp add: normalSeg_def)
  then have "js_join slash segs = [] \<longleftrightarrow> segs = []" by (rule js_join_eq_Nil)
  then show ?thesis by (simp add: js_def)
qed

lemma nodeKeys_pathParts: "nodeKeys fs p = pathParts (resolvePath fs p)"
proof -
  have "pathParts (js ''/'') = []" by (simp add: pathParts_def js_def)
  then show ?thesis by (simp add: nodeKeys_def Let_def)
qed

lemma getNode_walk: "getNode fs p = walk (root fs) (nodeKeys fs p)"
  by (simp add: getNode_def nodeKeys_def Let_def)

lemma resolvePath_keys:
  "resolvePath fs p = slash # js_join slash (nodeKeys fs p)
   \<and> (\<forall>s \<in> set (nodeKeys fs p). normalSeg s)"
proof -
  obtain segs where segs: "resolvePath fs p = slash # js_join slash segs"
    "\<forall>s \<in> set segs. normalSeg s"
    using resolvePath_shape by blast
  then have "nodeKeys fs p = segs"
    by (simp add: nodeKeys_pathParts pathParts_normal)
  with segs show ?thesis by simp
qed

lemma nodeKeys_normal_form:
  "\<forall>s \<in> set segs. normalSeg s \<Longrightarrow> nodeKeys fs (slash # js_join slash segs) = segs"
  by (simp add: nodeKeys_pathParts resolvePath_normal_form pathParts_normal)

lemma nodeKeys_same_cwd: "currentPath fs' = currentPath fs \<Longrightarrow> nodeKeys fs' p = nodeKeys fs p"
  by (simp add: nodeKeys_pathParts resolvePath_def)

lemma nodeKeys_resolved: "nodeKeys fs' (resolvePath fs p) = nodeKeys fs p"
  by (simp add: nodeKeys_pathParts resolvePath_resolved)

lemma split_root: "parentPathOf (js ''/'') = js ''/''" "lastNameOf (js ''/'') = []"
  by (simp_all add: parentPathOf_def lastNameOf_def js_def substring_def substringFrom_def
      clampIndex_def Let_def)

lemma substring_prefix: "substring (h @ t) 0 (int (length h)) = h"
  by (simp add: substring_def clampIndex_def Let_def)

lemma substringFrom_suffix: "substringFrom (h @ c # t) (int (length h) + 1) = t"
proof -
  have "nat (int (length h) + 1) = Suc (length h)" by simp
  then show ?thesis by (simp add: substringFrom_def clampIndex_def)
qed

lemma split_at_last_slash:
  assumes "slash \<notin> set l"
  shows "parentPathOf (h @ slash # l) = (if h = [] then js ''/'' else h)"
    and "lastNameOf (h @ slash # l) = l"
proof -
  have idx: "lastIndexOf (h @ slash # l) slash = int (length h)"
    using assms by (rule lastIndexOf_last_occurrence)
  show "parentPathOf (h @ slash # l) = (if h = [] then js ''/'' else h)"
    unfolding parentPathOf_def idx Let_def by (simp only: substring_prefix)
  show "lastNameOf (h @ slash # l) = l"
    unfolding lastNameOf_def idx by (rule substringFrom_suffix)
qed

lemma split_normal_form:
  assumes "segs \<noteq> []" and "\<forall>s \<in> set segs. normalSeg s"
  shows "parentPathOf (slash # js_join slash segs) = slash # js_join slash (butlast segs)"
    and "lastNameOf (slash # js_join slash segs) = last segs"
proof -
  let ?bs = "butlast segs" and ?l = "last segs"
  let ?h = "if ?bs = [] then [] else slash # js_join slash ?bs"
  have segs: "segs = ?bs @ [?l]" using assms(1) by simp
  have nosl: "slash \<notin> set ?l" using assms by (simp add: normalSeg_def)
  have "js_join slash (?bs @ [?l]) = (if ?bs = [] then ?l else js_join slash ?bs @ slash # ?l)"
    by (simp add: js_join_snoc)
  with segs have "js_join slash segs = (if ?bs = [] then ?l else js_join slash ?bs @ slash # ?l)"
    by simp
  then have whole: "slash # js_join slash segs = ?h @ slash # ?l"
    by simp
  have "parentPathOf (?h @ slash # ?l) = (if ?h = [] then js ''/'' else ?h)"
    using nosl by (rule split_at_last_slash)
  then show "parentPathOf (slash # js_join slash segs) = slash # js_join slash (butlast segs)"
    unfolding whole [symmetric] by (simp add: js_def)
  have "lastNameOf (?h @ slash # ?l) = ?l"
    using nosl by (rule split_at_last_slash)
  then show "lastNameOf (slash # js_join slash segs) = last segs"
    unfolding whole [symmetric] .
qed

lemma parent_keys: "nodeKeys fs' (parentPathOf (resolvePath fs p)) = butlast (nodeKeys fs p)"
proof (cases "nodeKeys fs p = []")
  case True
  then have "resolvePath fs p = js ''/''"
    using resolvePath_keys [of fs p] by (simp add: js_def)
  moreover have "nodeKeys fs' (js ''/'') = []"
    using nodeKeys_normal_form [of "[]" fs'] by (simp add: js_def)
  ultimately show ?thesis using True by (simp add: split_root)
next
  case False
  have normal: "\<forall>s \<in> set (nodeKeys fs p). normalSeg s"
    using resolvePath_keys by blast
  then have "\<forall>s \<in> set (butlast (nodeKeys fs p)). normalSeg s"
    by (auto dest: in_set_butlastD)
  then have "nodeKeys fs' (slash # js_join slash (butlast (nodeKeys fs p))) = butlast (nodeKeys fs p)"
    by (rule nodeKeys_normal_form)
  moreover have "parentPathOf (resolvePath fs p) = slash # js_join slash (butlast (nodeKeys fs p))"
    using split_normal_form(1) [OF False normal] resolvePath_keys [of fs p] by simp
  ultimately show ?thesis by simp
qed

lemma last_name:
  "lastNameOf (resolvePath fs p) = (if nodeKeys fs p = [] then [] else last (nodeKeys fs p))"
proof (cases "nodeKeys fs p = []")
  case True
  then have "resolvePath fs p = js ''/''"
    using resolvePath_keys [of fs p] by (simp add: js_def)
  with True show ?thesis by (simp add: split_root)
next
  case False
  have normal: "\<forall>s \<in> set (nodeKeys fs p). normalSeg s"
    using resolvePath_keys by blast
  show ?thesis
    using split_normal_form(2) [OF False normal] resolvePath_keys [of fs p] False by simp
qed

subsection \<open>The operations on the tree\<close>

lemma mkdir_tree:
  "mkdir fs p =
     (let ks = nodeKeys fs p; dirName = (if ks = [] then [] else last ks)
      in case walk (root fs) (butlast ks) of
           None \<Rightarrow> (False, fs)
         | Some parent \<Rightarrow>
             if node_type parent \<noteq> Directory then (False, fs)
             else if map_of (node_children parent) dirName \<noteq> None then (False, fs)
             else (True, fs\<lparr>root := modifyAt (butlast ks)
                      (\<lambda>p. setChildren p (AList.update dirName
                              (createNode Directory dirName []) (node_children p)))
                      (root fs)\<rparr>))"
  unfolding mkdir_def Let_def getNode_walk parent_keys last_name ..

lemma writeFile_tree:
  "writeFile fs p content =
     (let ks = nodeKeys fs p; fileName = (if ks = [] then [] else last ks)
      in case walk (root fs) (butlast ks) of
           None \<Rightarrow> (False, fs)
         | Some parent \<Rightarrow>
             if node_type parent \<noteq> Directory then (False, fs)
             else (case map_of (node_children parent) fileName of
                Some existing \<Rightarrow>
                  if node_type existing \<noteq> File then (False, fs)
                  else (True, fs\<lparr>root := modifyAt (butlast ks)
                      (\<lambda>p. setChildren p (AList.update fileName
                              (setContent existing content) (node_children p)))
                      (root fs)\<rparr>)
              | None \<Rightarrow>
                  (True, fs\<lparr>root := modifyAt (butlast ks)
                      (\<lambda>p. setChildren p (AList.update fileName
                              (createNode File fileName content) (node_children p)))
                      (root fs)\<rparr>)))"
  unfolding writeFile_def Let_def getNode_walk parent_keys last_name ..

lemma rm_tree:
  "rm fs p recursive =
     (let ks = nodeKeys fs p; name = (if ks = [] then [] else last ks)
      in case walk (root fs) (butlast ks) of
           None \<Rightarrow> (False, fs)
         | Some parent \<Rightarrow>
            (case walk (root fs) ks of
               None \<Rightarrow> (False, fs)
             | Some node \<Rightarrow>
                 if node_type node = Directory \<and> length (node_children node) > 0
                    \<and> \<not> recursive
                 then (False, fs)
                 else (True, fs\<lparr>root := modifyAt (butlast ks)
                      (\<lambda>p. setChildren p (AList.delete name (node_children p)))
                      (root fs)\<rparr>)))"
  unfolding rm_def Let_def getNode_walk parent_keys last_name nodeKeys_resolved ..

lemma walk_append:
  "walk n (ks @ rest) = (case walk n ks of None \<Rightarrow> None | Some m \<Rightarrow> walk m rest)"
  by (induction ks arbitrary: n) (auto split: option.splits)

lemma walk_modifyAt:
  "walk n ks = Some m \<Longrightarrow> walk (modifyAt ks f n) (ks @ rest) = walk (f m) rest"
proof (induction ks arbitrary: n)
  case Nil
  then show ?case by simp
next
  case (Cons k ks)
  then obtain c where c: "map_of (node_children n) k = Some c" "walk c ks = Some m"
    by (auto split: option.splits)
  then show ?case
    using Cons.IH [of c] by (simp add: setChildren_def update_conv')
qed

lemma update_absent: "map_of al k = None \<Longrightarrow> AList.update k v al = al @ [(k, v)]"
  by (induction al) auto

lemma walk_root_entry:
  assumes "ks \<noteq> []" and "[] \<notin> set ks"
  shows "walk (setChildren n (AList.update [] v (node_children n))) ks = walk n ks"
proof -
  obtain k rest where ks: "ks = k # rest" using assms(1) by (cases ks) auto
  with assms(2) have "k \<noteq> []" by auto
  then show ?thesis
    by (simp add: ks setChildren_def update_conv')
qed

lemma nodeKeys_no_empty: "[] \<notin> set (nodeKeys fs q)"
  using resolvePath_keys [of fs q] by (auto simp: normalSeg_def)

lemma nodeKeys_root: "resolvePath fs p = js ''/'' \<longleftrightarrow> nodeKeys fs p = []"
  using resolvePath_keys [of fs p] root_path_iff [of "nodeKeys fs p"] by auto

lemma newVFS_root_facts:
  "resolvePath newVFS (js ''/'') = js ''/''"
  "node_type (root newVFS) = Directory"
  "map_of (node_children (root newVFS)) [] = None"
  by code_simp+

lemma writeFile_then_readFile:
  assumes "writeFile fs p s = (True, fs')" and "resolvePath fs p \<noteq> js ''/''"
  shows "readFile fs' p = Some s"
proof -
  let ?ks = "nodeKeys fs p"
  have ne: "?ks \<noteq> []" using assms(2) by (simp add: nodeKeys_root)
  then have ks: "?ks = butlast ?ks @ [last ?ks]" by simp
  from assms(1) obtain parent where
    parent: "walk (root fs) (butlast ?ks) = Some parent"
    unfolding writeFile_tree Let_def by (cases "walk (root fs) (butlast ?ks)") auto
  define node where
    "node = (case map_of (node_children parent) (last ?ks) of
               Some existing \<Rightarrow> setContent existing s
             | None \<Rightarrow> createNode File (last ?ks) s)"
  define f where "f = (\<lambda>p. setChildren p (AList.update (last ?ks) node (node_children p)))"
  have written: "node_type parent = Directory
      \<and> (\<forall>e. map_of (node_children parent) (last ?ks) = Some e \<longrightarrow> node_type e = File)
      \<and> fs' = fs\<lparr>root := modifyAt (butlast ?ks) f (root fs)\<rparr>"
    using assms(1) unfolding writeFile_tree Let_def parent f_def node_def
    by (simp add: ne split: option.splits if_splits)
  then have fs': "fs' = fs\<lparr>root := modifyAt (butlast ?ks) f (root fs)\<rparr>" by simp
  have node: "node_type node = File" "node_content node = s"
    using written unfolding node_def
    by (auto simp: setContent_def createNode_def split: option.splits)
  have same: "nodeKeys fs' p = ?ks"
    by (rule nodeKeys_same_cwd) (simp add: fs')
  have "walk (root fs') (butlast ?ks @ [last ?ks]) = walk (f parent) [last ?ks]"
    unfolding fs' using walk_modifyAt [OF parent] by simp
  also have "\<dots> = Some node"
    by (simp add: f_def setChildren_def update_conv')
  finally have "getNode fs' p = Some node"
    using ks by (simp add: getNode_walk same)
  then show ?thesis by (simp add: readFile_def node)
qed

lemma rm_detaches:
  assumes "rm fs p recursive = (True, fs')" and "resolvePath fs p \<noteq> js ''/''"
  shows "getNode fs' p = None"
proof -
  let ?ks = "nodeKeys fs p"
  let ?f = "\<lambda>p. setChildren p (AList.delete (last ?ks) (node_children p))"
  have ne: "?ks \<noteq> []" using assms(2) by (simp add: nodeKeys_root)
  then have ks: "?ks = butlast ?ks @ [last ?ks]" by simp
  from assms(1) obtain parent where
    parent: "walk (root fs) (butlast ?ks) = Some parent"
    unfolding rm_tree Let_def by (cases "walk (root fs) (butlast ?ks)") auto
  have fs': "fs' = fs\<lparr>root := modifyAt (butlast ?ks) ?f (root fs)\<rparr>"
    using assms(1) unfolding rm_tree Let_def parent
    by (simp add: ne split: option.splits if_splits)
  have same: "nodeKeys fs' p = ?ks"
    by (rule nodeKeys_same_cwd) (simp add: fs')
  have "walk (root fs') (butlast ?ks @ [last ?ks]) = walk (?f parent) [last ?ks]"
    unfolding fs' using walk_modifyAt [OF parent] by simp
  also have "\<dots> = None"
    by (simp add: setChildren_def delete_conv')
  finally show ?thesis
    using ks by (simp add: getNode_walk same)
qed

lemma rm_nonempty_directory:
  assumes "getNode fs p = Some node" and "node_type node = Directory"
    and "node_children node \<noteq> []"
  shows "rm fs p False = (False, fs)"
  using assms unfolding rm_tree Let_def getNode_walk
  by (auto split: option.splits)

text \<open>The root stays what the constructor made it, a directory.\<close>

lemma modifyAt_node_type:
  "(\<And>n. node_type (f n) = node_type n) \<Longrightarrow> node_type (modifyAt ks f n) = node_type n"
  by (cases ks) (auto simp: setChildren_def split: option.splits)

lemma mkdir_root_type: "node_type (root (snd (mkdir fs p))) = node_type (root fs)"
  unfolding mkdir_tree Let_def
  by (auto simp: modifyAt_node_type setChildren_def split: option.splits)

lemma writeFile_root_type: "node_type (root (snd (writeFile fs p s))) = node_type (root fs)"
  unfolding writeFile_tree Let_def
  by (auto simp: modifyAt_node_type setChildren_def split: option.splits)

lemma rm_root_type: "node_type (root (snd (rm fs p r))) = node_type (root fs)"
  unfolding rm_tree Let_def
  by (auto simp: modifyAt_node_type setChildren_def split: option.splits)

lemma cd_root: "root (snd (cd fs p)) = root fs"
  by (auto simp: cd_def Let_def split: option.splits)

section \<open>Path resolution\<close>

text \<open>
  C4. \<open>resolvePath\<close> sends the empty path and \<open>~\<close> to the home directory and every
  other path, made absolute with the current directory in front when it does not start
  with a slash, to the normal form of the specification: split on the slash, empty and
  \<open>.\<close> segments dropped, one retained segment popped for each \<open>..\<close>, a pop with
  nothing retained being a no-op. It is a total function: no input makes it fail. With
  current directory \<open>/a/b\<close> the path \<open>..\<close> resolves to \<open>/a\<close>, with current
  directory \<open>/\<close> it resolves to \<open>/\<close>.
\<close>

theorem resolvePath_normalizes:
  "resolvePath fs path =
     (if path = [] \<or> path = js ''~'' then js ''/home/guest''
      else normalizeSpec (if startsWith path (js ''/'') then path
                          else currentPath fs @ js ''/'' @ path))
   \<and> resolvePath (fs\<lparr>currentPath := js ''/a/b''\<rparr>) (js ''..'') = js ''/a''
   \<and> resolvePath (fs\<lparr>currentPath := js ''/''\<rparr>) (js ''..'') = js ''/''"
proof -
  have dots: "js ''..'' \<noteq> []" "js ''..'' \<noteq> js ''~''" "\<not> startsWith (js ''..'') (js ''/'')"
    by (simp_all add: js_def startsWith_def)
  have general: "resolvePath fs path =
     (if path = [] \<or> path = js ''~'' then js ''/home/guest''
      else normalizeSpec (if startsWith path (js ''/'') then path
                          else currentPath fs @ js ''/'' @ path))"
    by (simp add: resolvePath_def normalizePath_spec)
  have from_a_b: "resolvePath (fs\<lparr>currentPath := js ''/a/b''\<rparr>) (js ''..'') = js ''/a''"
    using dots by (simp add: resolvePath_def normalizePath_up_from_a_b)
  have from_root: "resolvePath (fs\<lparr>currentPath := js ''/''\<rparr>) (js ''..'') = js ''/''"
    using dots by (simp add: resolvePath_def normalizePath_up_from_root)
  from general from_a_b from_root show ?thesis by blast
qed

text \<open>
  C6. Resolving a resolved path changes nothing, for every path and every current
  directory.
\<close>

theorem resolvePath_idempotent:
  "resolvePath fs (resolvePath fs p) = resolvePath fs p"
  by (rule resolvePath_resolved)

section \<open>File system operations at the root\<close>

text \<open>
  C9, as the code has it. On a file system whose root, a directory, has no child named
  by the empty string, \<open>mkdir\<close> of a path that resolves to \<open>/\<close> returns true and
  appends to the root's child map a directory node whose key and name are the empty
  string, so that the node sits at the keys \<open>[""]\<close>. \<open>getNode\<close> never reaches
  that node: for every path it walks the keys \<open>nodeKeys\<close>, none of which is empty,
  and away from the root it returns what it returned before the call. A second
  identical call returns false and changes nothing.
\<close>

theorem mkdir_root_path:
  assumes "resolvePath fs path = js ''/''"
    and "node_type (root fs) = Directory"
    and "map_of (node_children (root fs)) [] = None"
  shows "\<exists>fs'. mkdir fs path = (True, fs')
      \<and> node_children (root fs') = node_children (root fs) @ [([], FileNode Directory [] [] [])]
      \<and> walk (root fs') [[]] = Some (FileNode Directory [] [] [])
      \<and> (\<forall>q. getNode fs' q = walk (root fs') (nodeKeys fs' q) \<and> [] \<notin> set (nodeKeys fs' q))
      \<and> (\<forall>q. resolvePath fs' q \<noteq> js ''/'' \<longrightarrow> getNode fs' q = getNode fs q)
      \<and> mkdir fs' path = (False, fs')"
proof -
  define newDir where "newDir = createNode Directory [] []"
  define fs' where
    "fs' = fs\<lparr>root := setChildren (root fs) (AList.update [] newDir (node_children (root fs)))\<rparr>"
  have keys: "nodeKeys fs path = []"
    using assms(1) by (simp add: nodeKeys_root)
  have first: "mkdir fs path = (True, fs')"
    using assms(2,3) by (simp add: mkdir_tree keys fs'_def newDir_def)
  have children: "node_children (root fs') = node_children (root fs) @ [([], FileNode Directory [] [] [])]"
    using assms(3) by (simp add: fs'_def setChildren_def update_absent newDir_def createNode_def)
  have placed: "walk (root fs') [[]] = Some (FileNode Directory [] [] [])"
    using assms(3) by (simp add: children map_add_def)
  have same: "nodeKeys fs' q = nodeKeys fs q" for q
    by (rule nodeKeys_same_cwd) (simp add: fs'_def)
  have reach: "getNode fs' q = walk (root fs') (nodeKeys fs' q) \<and> [] \<notin> set (nodeKeys fs' q)" for q
    by (simp add: getNode_walk nodeKeys_no_empty)
  have others: "getNode fs' q = getNode fs q" if "resolvePath fs' q \<noteq> js ''/''" for q
  proof -
    from that have "nodeKeys fs q \<noteq> []" by (simp add: nodeKeys_root same)
    then have "walk (root fs') (nodeKeys fs q) = walk (root fs) (nodeKeys fs q)"
      unfolding fs'_def using nodeKeys_no_empty [of fs q] by (simp add: walk_root_entry)
    then show ?thesis by (simp add: getNode_walk same)
  qed
  have second: "mkdir fs' path = (False, fs')"
  proof -
    have "nodeKeys fs' path = []" by (simp add: same keys)
    moreover have "node_type (root fs') = Directory"
      using assms(2) by (simp add: fs'_def setChildren_def)
    moreover have "map_of (node_children (root fs')) [] \<noteq> None"
      by (simp add: children)
    ultimately show ?thesis by (simp add: mkdir_tree)
  qed
  from first children placed reach others second show ?thesis by blast
qed

text \<open>The hypotheses of C9 hold of the freshly constructed file system and \<open>/\<close>.\<close>

theorem mkdir_root_path_witness:
  "\<exists>fs'. mkdir newVFS (js ''/'') = (True, fs')
      \<and> node_children (root fs') = node_children (root newVFS) @ [([], FileNode Directory [] [] [])]
      \<and> mkdir fs' (js ''/'') = (False, fs')"
  using mkdir_root_path [OF newVFS_root_facts] by blast

text \<open>
  Without the condition on the root the claim fails: \<open>writeFile("/", "")\<close> on the
  freshly constructed file system succeeds and leaves a file under the empty name in
  the root, and the first \<open>mkdir("/")\<close> after it returns false and inserts nothing.
\<close>

theorem mkdir_root_after_writeFile_counterexample:
  "fst (writeFile newVFS (js ''/'') []) = True
   \<and> resolvePath (snd (writeFile newVFS (js ''/'') [])) (js ''/'') = js ''/''
   \<and> mkdir (snd (writeFile newVFS (js ''/'') [])) (js ''/'')
       = (False, snd (writeFile newVFS (js ''/'') []))
   \<and> map_of (node_children (root (snd (writeFile newVFS (js ''/'') [])))) []
       = Some (FileNode File [] [] [])"
  by code_simp

text \<open>
  C5. The round trip of \<open>writeFile\<close> and \<open>readFile\<close> fails at the root: on the
  freshly constructed file system \<open>writeFile("/", "x")\<close> reports success, having
  stored a file under the empty name in the root, and \<open>readFile("/")\<close> then returns
  null. (Away from the root the round trip holds: \<open>writeFile_then_readFile\<close>.)
\<close>

theorem writeFile_root_reports_success:
  "fst (writeFile newVFS (js ''/'') (js ''x'')) = True
   \<and> readFile (snd (writeFile newVFS (js ''/'') (js ''x''))) (js ''/'') = None
   \<and> walk (root (snd (writeFile newVFS (js ''/'') (js ''x'')))) [[]]
       = Some (FileNode File [] (js ''x'') [])"
  by code_simp

text \<open>
  C2. \<open>rm\<close> reports a removal that did not happen at the root: on the freshly
  constructed file system \<open>rm("/", true)\<close> returns true, leaves the file system as it
  was, and \<open>getNode("/")\<close> still returns the root. (Away from the root a true
  result means the node is gone, \<open>rm_detaches\<close>, and a directory with a child is
  refused without the flag, \<open>rm_nonempty_directory\<close>.)
\<close>

theorem rm_root_reports_success:
  "rm newVFS (js ''/'') True = (True, newVFS)
   \<and> getNode newVFS (js ''/'') = Some (root newVFS)"
  by code_simp

section \<open>Properties of the dispatcher\<close>

lemma substringFrom_2: "substringFrom token 2 = drop 2 token"
  by (simp add: substringFrom_def clampIndex_def min_def)

lemma add_short_flags: "foldl (\<lambda>fl c. insert [c] fl) flags cs = flags \<union> (\<lambda>c. [c]) ` set cs"
  by (induction cs arbitrary: flags) auto

lemma parseLoop_step:
  "parseLoop (token # rest) (args, flags)
     = parseLoop rest (args @ (if isPositional token then [token] else []), flags \<union> flagsOf token)"
proof (cases "isLongFlag token")
  case True
  then show ?thesis
    by (simp add: isLongFlag_def isPositional_def flagsOf_def substringFrom_2)
next
  case notLong: False
  show ?thesis
  proof (cases "isShortFlags token")
    case True
    then have short: "startsWith token (js ''-'')" "length token > 1"
      by (simp_all add: isShortFlags_def)
    have "\<not> startsWith token (js ''--'')" using notLong by (simp add: isLongFlag_def)
    with short True notLong show ?thesis
      by (simp add: isPositional_def flagsOf_def add_short_flags drop_Suc)
  next
    case False
    then have "\<not> (startsWith token (js ''-'') \<and> length token > 1)"
      using notLong by (simp add: isShortFlags_def)
    moreover have "\<not> startsWith token (js ''--'')" using notLong by (simp add: isLongFlag_def)
    ultimately show ?thesis
      using notLong False by (auto simp: isPositional_def flagsOf_def)
  qed
qed

lemma parseLoop_spec:
  "parseLoop toks (args, flags)
     = (args @ filter isPositional toks, flags \<union> \<Union> (flagsOf ` set toks))"
proof (induction toks arbitrary: args flags)
  case Nil
  then show ?case by simp
next
  case (Cons token rest)
  have "parseLoop (token # rest) (args, flags)
      = parseLoop rest (args @ (if isPositional token then [token] else []), flags \<union> flagsOf token)"
    by (rule parseLoop_step)
  also have "\<dots> = ((args @ (if isPositional token then [token] else [])) @ filter isPositional rest,
      (flags \<union> flagsOf token) \<union> \<Union> (flagsOf ` set rest))"
    by (rule Cons.IH)
  also have "\<dots> = (args @ filter isPositional (token # rest),
      flags \<union> \<Union> (flagsOf ` set (token # rest)))"
    by (simp add: Un_assoc)
  finally show ?case .
qed

lemma parse_mkdir:
  "parseInput (js ''mkdir '' @ [34] @ js ''my dir'' @ [34]) = (js ''mkdir'', [js ''my dir''], {})"
  by (simp add: parseInput_def tokenize_def tokenizeStep_def js_def startsWith_def)

lemma parse_rm:
  "parseInput (js ''rm -rf /tmp/x'') = (js ''rm'', [js ''/tmp/x''], {js ''r'', js ''f''})"
  by (auto simp: parseInput_def tokenize_def tokenizeStep_def js_def startsWith_def)

lemma js_split_head: "hd (js_split c xs) = takeWhile (\<lambda>x. x \<noteq> c) xs"
  by (induction xs) (auto split: list.splits)

lemma envAssignment_never: "envAssignment trimmed = None"
proof (cases "61 \<in> set trimmed \<and> \<not> matchesIdentStart trimmed")
  case False
  then show ?thesis by (auto simp: envAssignment_def)
next
  case True
  obtain varName rest where sp: "js_split 61 trimmed = varName # rest"
    by (cases "js_split 61 trimmed") auto
  then have "varName = takeWhile (\<lambda>x. x \<noteq> 61) trimmed"
    using js_split_head [of 61 trimmed] by simp
  moreover have "\<not> matchesIdentifier (takeWhile (\<lambda>x. x \<noteq> 61) trimmed)"
    using True by (cases trimmed) (auto simp: matchesIdentStart_def matchesIdentifier_def)
  ultimately show ?thesis
    using True sp by (simp add: envAssignment_def)
qed

lemma parseInput_empty: "parseInput [] = ([], [], {})"
  by (simp add: parseInput_def tokenize_def)

lemma commandLineOf_empty: "commandLineOf [] = []"
  by (simp add: commandLineOf_def assignmentMatch_def matchesIdentStart_def)

lemma execute_command_not_found:
  assumes "parseInput (commandLineOf (js_trim input)) = (command, args, flags)"
    and "command \<noteq> []"
    and "map_of (commands c) command = None"
  shows "execute c input =
           (127, c\<lparr>outputSink := outputSink c
                     @ [Out_error (command @ js '': command not found'')]\<rparr>)"
proof -
  have "js_trim input \<noteq> []"
    using assms(1,2) by (auto simp: commandLineOf_empty parseInput_empty)
  then show ?thesis
    using assms by (simp add: execute_def Let_def envAssignment_never)
qed

lemma trim_unknown: "js_trim (js ''unknown-cmd'') = js ''unknown-cmd''"
  by (simp add: js_trim_def js_def isWhiteSpace_def)
lemma am_unknown: "assignmentMatch (js ''unknown-cmd'') = None"
  by (simp add: assignmentMatch_def js_def isIdentChar_def isIdentStart_def matchesIdentStart_def)
lemma parse_unknown: "parseInput (commandLineOf (js_trim (js ''unknown-cmd''))) = (js ''unknown-cmd'', [], {})"
  unfolding trim_unknown commandLineOf_def am_unknown
  by (simp add: parseInput_def tokenize_def tokenizeStep_def js_def startsWith_def)
lemma trim_FOO: "js_trim (js ''FOO=bar'') = js ''FOO=bar''"
  by (simp add: js_trim_def js_def isWhiteSpace_def)
lemma am_FOO: "assignmentMatch (js ''FOO=bar'') = None"
  by (simp add: assignmentMatch_def js_def isIdentChar_def isIdentStart_def matchesIdentStart_def isWhiteSpace_def)
lemma parse_FOO: "parseInput (commandLineOf (js_trim (js ''FOO=bar''))) = (js ''FOO=bar'', [], {})"
  unfolding trim_FOO commandLineOf_def am_FOO
  by (simp add: parseInput_def tokenize_def tokenizeStep_def js_def startsWith_def)
lemma error_line_unknown:
  "js ''unknown-cmd'' @ js '': command not found'' = js ''unknown-cmd: command not found''"
  by (simp add: js_def)

lemma error_line_FOO:
  "js ''FOO=bar'' @ js '': command not found'' = js ''FOO=bar: command not found''"
  by (simp add: js_def)

section \<open>Tokenizing and dispatch\<close>

text \<open>
  C7. The line \<open>mkdir "my dir"\<close> parses to the command \<open>mkdir\<close>, the single
  argument \<open>my dir\<close> and no flag; \<open>rm -rf /tmp/x\<close> parses to the command \<open>rm\<close>,
  the flags \<open>r\<close> and \<open>f\<close> and the argument \<open>/tmp/x\<close>. For every input the command
  is the first token, the arguments are the positional tokens after it in their order,
  and the flag set holds the name of each long flag \<open>--name\<close> and one flag for each
  character after the dash of each group \<open>-xyz\<close>.
\<close>

theorem parseInput_tokens:
  "parseInput (js ''mkdir '' @ [34] @ js ''my dir'' @ [34]) = (js ''mkdir'', [js ''my dir''], {})
   \<and> parseInput (js ''rm -rf /tmp/x'') = (js ''rm'', [js ''/tmp/x''], {js ''r'', js ''f''})
   \<and> parseInput input =
       (case tokenize input of [] \<Rightarrow> [] | t # _ \<Rightarrow> t,
        filter isPositional (drop 1 (tokenize input)),
        \<Union> (flagsOf ` set (drop 1 (tokenize input))))"
proof -
  have "parseInput input =
       (case tokenize input of [] \<Rightarrow> [] | t # _ \<Rightarrow> t,
        filter isPositional (drop 1 (tokenize input)),
        \<Union> (flagsOf ` set (drop 1 (tokenize input))))"
    by (simp add: parseInput_def Let_def parseLoop_spec)
  with parse_mkdir parse_rm show ?thesis by blast
qed

text \<open>
  C8. When the command name parsed from a line is not empty and the registry has no
  such command, \<open>execute\<close> adds to the output sink exactly one error line, the name
  followed by \<open>: command not found\<close>, changes nothing else and returns 127. The
  environment assignment branch never takes such a line away (\<open>envAssignment_never\<close>).
\<close>

theorem execute_unknown_command:
  assumes "parseInput (commandLineOf (js_trim input)) = (command, args, flags)"
    and "command \<noteq> []"
    and "map_of (commands c) command = None"
  shows "execute c input =
           (127, c\<lparr>outputSink := outputSink c
                     @ [Out_error (command @ js '': command not found'')]\<rparr>)"
  using assms by (rule execute_command_not_found)

theorem execute_unknown_command_witness:
  "js ''unknown-cmd'' \<noteq> []
   \<and> map_of (commands (newCLI newVFS defaultEnv [])) (js ''unknown-cmd'') = None
   \<and> execute (newCLI newVFS defaultEnv []) (js ''unknown-cmd'')
       = (127, (newCLI newVFS defaultEnv [])
                 \<lparr>outputSink := [Out_error (js ''unknown-cmd: command not found'')]\<rparr>)"
proof -
  have ne: "js ''unknown-cmd'' \<noteq> []" by (simp add: js_def)
  have absent: "map_of (commands (newCLI newVFS defaultEnv [])) (js ''unknown-cmd'') = None"
    by (simp add: newCLI_def)
  show ?thesis
    using ne absent execute_unknown_command [OF parse_unknown ne absent]
    by (simp add: newCLI_def error_line_unknown)
qed

text \<open>
  C1. A line that is just \<open>NAME=value\<close> is not stored: the block that would store it
  runs only for a line that does not start with a letter or an underscore, and then
  its variable name is never an identifier. \<open>FOO=bar\<close> is looked up as a command
  instead: unless a command of that name is registered, \<open>execute\<close> reports
  \<open>FOO=bar: command not found\<close>, returns 127 and leaves the environment as it was.
\<close>

theorem execute_assignment_not_stored:
  assumes "map_of (commands c) (js ''FOO=bar'') = None"
  shows "execute c (js ''FOO=bar'')
           = (127, c\<lparr>outputSink := outputSink c
                       @ [Out_error (js ''FOO=bar: command not found'')]\<rparr>)"
proof -
  have "js ''FOO=bar'' \<noteq> []" by (simp add: js_def)
  then show ?thesis
    using execute_command_not_found [OF parse_FOO _ assms] by (simp add: error_line_FOO)
qed

theorem execute_assignment_not_stored_witness:
  "fst (execute (newCLI newVFS defaultEnv []) (js ''FOO=bar'')) = 127
   \<and> env (snd (execute (newCLI newVFS defaultEnv []) (js ''FOO=bar''))) = defaultEnv
   \<and> outputSink (snd (execute (newCLI newVFS defaultEnv []) (js ''FOO=bar'')))
       = [Out_error (js ''FOO=bar: command not found'')]"
proof -
  have "map_of (commands (newCLI newVFS defaultEnv [])) (js ''FOO=bar'') = None"
    by (simp add: newCLI_def)
  then show ?thesis
    using execute_assignment_not_stored [of "newCLI newVFS defaultEnv []"]
    by (simp add: newCLI_def)
qed

section \<open>Properties of the line editor\<close>

lemma slice_prefix_length:
  "0 \<le> c \<Longrightarrow> c \<le> int (length b) \<Longrightarrow> length (slice b 0 c) = nat c"
  by (simp add: slice_def sliceIndex_def Let_def)

lemma sliceFrom_length:
  "0 \<le> c \<Longrightarrow> c \<le> int (length b) \<Longrightarrow> length (sliceFrom b c) = length b - nat c"
  by (simp add: sliceFrom_def sliceIndex_def)

lemma insertChar_invariant:
  assumes "editorInvariant s" and "d \<noteq> []"
  shows "editorInvariant (insertChar s d)"
proof -
  have c: "0 \<le> cursorPosition s" "cursorPosition s \<le> int (length (inputBuffer s))"
    using assms(1) by (simp_all add: editorInvariant_def)
  have "length d \<ge> 1" using assms(2) by (cases d) auto
  then show ?thesis
    using assms(1) c
    by (simp add: editorInvariant_def insertChar_def Let_def slice_prefix_length sliceFrom_length)
qed

lemma handleBackspace_invariant: "editorInvariant s \<Longrightarrow> editorInvariant (handleBackspace s)"
  by (auto simp: editorInvariant_def handleBackspace_def Let_def slice_prefix_length
      sliceFrom_length)

lemma handleDelete_invariant: "editorInvariant s \<Longrightarrow> editorInvariant (handleDelete s)"
  by (auto simp: editorInvariant_def handleDelete_def Let_def slice_prefix_length
      sliceFrom_length)

lemma handleCursorLeft_invariant: "editorInvariant s \<Longrightarrow> editorInvariant (handleCursorLeft s)"
  by (auto simp: editorInvariant_def handleCursorLeft_def)

lemma handleCursorRight_invariant: "editorInvariant s \<Longrightarrow> editorInvariant (handleCursorRight s)"
  by (auto simp: editorInvariant_def handleCursorRight_def)

lemma handleHome_invariant: "editorInvariant s \<Longrightarrow> editorInvariant (handleHome s)"
  by (auto simp: editorInvariant_def handleHome_def)

lemma handleEnd_invariant: "editorInvariant s \<Longrightarrow> editorInvariant (handleEnd s)"
  by (auto simp: editorInvariant_def handleEnd_def)

lemma handleTab_invariant: "editorInvariant s \<Longrightarrow> editorInvariant (handleTab s)"
  by (auto simp: editorInvariant_def handleTab_def Let_def)

lemma clearLine_invariant: "editorInvariant s \<Longrightarrow> editorInvariant (clearLine s)"
  by (auto simp: editorInvariant_def clearLine_def)

lemma executeCommand_invariant: "editorInvariant s \<Longrightarrow> editorInvariant (executeCommand s)"
  by (auto simp: editorInvariant_def executeCommand_def Let_def)

lemma executeCommandResumed_invariant:
  "editorInvariant s \<Longrightarrow> editorInvariant (executeCommandResumed s)"
  by (auto simp: editorInvariant_def executeCommandResumed_def)

lemma handleHistoryUp_invariant:
  assumes "editorInvariant s"
  shows "\<exists>s'. handleHistoryUp s = Inr s' \<and> editorInvariant s'"
proof (cases "historyIndex s < int (length (commandHistory s)) - 1")
  case False
  with assms show ?thesis by (simp add: handleHistoryUp_def)
next
  case True
  let ?i = "int (length (commandHistory s)) - 1 - (historyIndex s + 1)"
  have "0 \<le> ?i" "?i < int (length (commandHistory s))"
    using True assms by (simp_all add: editorInvariant_def)
  then have "at_index (commandHistory s) ?i = Some (commandHistory s ! nat ?i)"
    by (simp add: at_index_def)
  then show ?thesis
    using True assms by (simp add: handleHistoryUp_def Let_def editorInvariant_def)
qed

lemma handleHistoryDown_invariant:
  assumes "editorInvariant s"
  shows "\<exists>s'. handleHistoryDown s = Inr s' \<and> editorInvariant s'"
proof (cases "historyIndex s > 0")
  case False
  with assms show ?thesis by (auto simp: handleHistoryDown_def editorInvariant_def)
next
  case True
  let ?i = "int (length (commandHistory s)) - 1 - (historyIndex s - 1)"
  have "0 \<le> ?i" "?i < int (length (commandHistory s))"
    using True assms by (simp_all add: editorInvariant_def)
  then have "at_index (commandHistory s) ?i = Some (commandHistory s ! nat ?i)"
    by (simp add: at_index_def)
  then show ?thesis
    using True assms by (simp add: handleHistoryDown_def Let_def editorInvariant_def)
qed

lemma handleInput_invariant:
  assumes "editorInvariant s"
  shows "\<exists>s'. handleInput s data = Inr s' \<and> editorInvariant s'"
proof -
  have printable: "editorInvariant (insertChar s data)"
    if "(case data of [] \<Rightarrow> False | code # _ \<Rightarrow> code \<ge> 32) \<or> length data > 1"
  proof -
    from that have "data \<noteq> []" by (cases data) auto
    with assms show ?thesis by (rule insertChar_invariant)
  qed
  show ?thesis
    unfolding handleInput_def
    using assms printable handleHistoryUp_invariant [OF assms] handleHistoryDown_invariant [OF assms]
    by (simp add: executeCommand_invariant handleBackspace_invariant handleDelete_invariant
        handleCursorLeft_invariant handleCursorRight_invariant handleHome_invariant
        handleEnd_invariant handleTab_invariant clearLine_invariant)
qed

lemma newFakeShell_invariant: "editorInvariant (newFakeShell c)"
  by (simp add: editorInvariant_def newFakeShell_def)

lemma reachable_invariant: "reachable s \<Longrightarrow> editorInvariant s"
proof (induction rule: reachable.induct)
  case (start c)
  show ?case by (rule newFakeShell_invariant)
next
  case (input s data s')
  then show ?case using handleInput_invariant [of s data] by simp
next
  case (resumed s)
  then show ?case by (simp add: executeCommandResumed_invariant)
qed

lemma js_trim_verbatim:
  assumes "b \<noteq> []" and "\<not> isWhiteSpace (hd b)" and "\<not> isWhiteSpace (last b)"
  shows "js_trim b = b"
proof -
  have "dropWhile isWhiteSpace b = b"
    using assms(1,2) by (cases b) auto
  moreover have "dropWhile isWhiteSpace (rev b) = rev b"
    using assms(1,3) by (cases "rev b") (auto simp: hd_rev [symmetric])
  ultimately show ?thesis by (simp add: js_trim_def)
qed

lemma commit_records:
  assumes "\<not> isProcessing s" and "js_trim (inputBuffer s) \<noteq> []"
  shows "handleInput s [13] = Inr (executeCommand s)"
    and "commandHistory (executeCommand s) = commandHistory s @ [js_trim (inputBuffer s)]"
    and "historyIndex (executeCommand s) = -1"
  using assms by (simp_all add: handleInput_def executeCommand_def Let_def)

lemma history_up_after_commit:
  assumes "\<not> isProcessing s" and "js_trim (inputBuffer s) \<noteq> []"
  defines "s1 \<equiv> executeCommand s"
  defines "s2 \<equiv> (if isProcessing s1 then executeCommandResumed s1 else s1)"
  shows "\<exists>s3. handleInput s2 [27, 91, 65] = Inr s3
      \<and> inputBuffer s3 = js_trim (inputBuffer s)
      \<and> cursorPosition s3 = int (length (js_trim (inputBuffer s)))
      \<and> historyIndex s3 = 0"
proof -
  let ?entry = "js_trim (inputBuffer s)"
  have idle: "\<not> isProcessing s2"
    by (simp add: s2_def executeCommandResumed_def)
  have hist: "commandHistory s2 = commandHistory s @ [?entry]"
    using commit_records(2) [OF assms(1,2)]
    by (simp add: s2_def s1_def executeCommandResumed_def)
  have idx: "historyIndex s2 = -1"
    using commit_records(3) [OF assms(1,2)]
    by (simp add: s2_def s1_def executeCommandResumed_def)
  have "at_index (commandHistory s2) (int (length (commandHistory s2)) - 1 - 0) = Some ?entry"
    by (simp add: hist at_index_def)
  then have "handleHistoryUp s2
      = Inr (s2\<lparr>historyIndex := 0, inputBuffer := ?entry, cursorPosition := int (length ?entry)\<rparr>)"
    by (simp add: handleHistoryUp_def idx hist Let_def)
  moreover have "handleInput s2 [27, 91, 65] = handleHistoryUp s2"
    using idle by (simp add: handleInput_def)
  ultimately show ?thesis by simp
qed

lemma typed_ls:
  "inputs (newFakeShell c) [js '' '', js ''l'', js ''s'']
     = Inr ((newFakeShell c)\<lparr>inputBuffer := js '' ls'', cursorPosition := 3\<rparr>)"
  by (simp add: handleInput_def insertChar_def newFakeShell_def js_def slice_def sliceFrom_def
      sliceIndex_def)

lemma trim_ls: "js_trim (js '' ls'') = js ''ls''"
  by (simp add: js_trim_def js_def isWhiteSpace_def)

section \<open>The line editor's history and bounds\<close>

text \<open>
  C3, as the code has it. On commit, when the shell is not busy and the buffer holds
  more than white space, the editor appends the trimmed buffer to the history and sets
  the history position to -1. The entry is the buffer itself when the buffer neither
  starts nor ends with white space. One history-up, once the command has settled (or
  at once after \<open>exit\<close>, which starts no command), puts exactly that entry into the
  buffer with the cursor at its end.
\<close>

theorem commit_appends_trimmed:
  assumes "\<not> isProcessing s" and "js_trim (inputBuffer s) \<noteq> []"
  shows "\<exists>s1 s3. handleInput s [13] = Inr s1
     \<and> commandHistory s1 = commandHistory s @ [js_trim (inputBuffer s)]
     \<and> historyIndex s1 = -1
     \<and> handleInput (if isProcessing s1 then executeCommandResumed s1 else s1) [27, 91, 65] = Inr s3
     \<and> inputBuffer s3 = js_trim (inputBuffer s)
     \<and> cursorPosition s3 = int (length (js_trim (inputBuffer s)))
     \<and> (\<not> isWhiteSpace (hd (inputBuffer s)) \<and> \<not> isWhiteSpace (last (inputBuffer s))
          \<longrightarrow> js_trim (inputBuffer s) = inputBuffer s)"
proof -
  have "inputBuffer s \<noteq> []" using assms(2) by (auto simp: js_trim_def)
  then have "\<not> isWhiteSpace (hd (inputBuffer s)) \<and> \<not> isWhiteSpace (last (inputBuffer s))
          \<longrightarrow> js_trim (inputBuffer s) = inputBuffer s"
    by (simp add: js_trim_verbatim)
  then show ?thesis
    using commit_records [OF assms] history_up_after_commit [OF assms] by blast
qed

theorem commit_appends_trimmed_witness:
  "\<not> isProcessing ((newFakeShell (newCLI newVFS defaultEnv []))
                      \<lparr>inputBuffer := js ''ls'', cursorPosition := 2\<rparr>)
   \<and> js_trim (js ''ls'') = js ''ls''
   \<and> (\<exists>s1 s3. handleInput ((newFakeShell (newCLI newVFS defaultEnv []))
                      \<lparr>inputBuffer := js ''ls'', cursorPosition := 2\<rparr>) [13] = Inr s1
        \<and> commandHistory s1 = [js ''ls'']
        \<and> historyIndex s1 = -1
        \<and> handleInput (if isProcessing s1 then executeCommandResumed s1 else s1) [27, 91, 65]
            = Inr s3
        \<and> inputBuffer s3 = js ''ls'')"
proof -
  let ?s = "(newFakeShell (newCLI newVFS defaultEnv []))
              \<lparr>inputBuffer := js ''ls'', cursorPosition := 2\<rparr>"
  have idle: "\<not> isProcessing ?s" by (simp add: newFakeShell_def)
  have trim: "js_trim (js ''ls'') = js ''ls''"
    by (simp add: js_trim_def js_def isWhiteSpace_def)
  have ne: "js_trim (inputBuffer ?s) \<noteq> []" by (simp add: trim) (simp add: js_def)
  from commit_appends_trimmed [OF idle ne] obtain s1 s3 where
    run: "handleInput ?s [13] = Inr s1"
      "commandHistory s1 = commandHistory ?s @ [js_trim (inputBuffer ?s)]"
      "historyIndex s1 = -1"
      "handleInput (if isProcessing s1 then executeCommandResumed s1 else s1) [27, 91, 65]
         = Inr s3"
      "inputBuffer s3 = js_trim (inputBuffer ?s)"
    by blast
  have hist: "commandHistory s1 = [js ''ls'']"
    using run(2) by (simp add: trim newFakeShell_def)
  have buf: "inputBuffer s3 = js ''ls''"
    using run(5) by (simp add: trim)
  from idle trim run(1) hist run(3) run(4) buf show ?thesis by blast
qed

text \<open>
  The claim as stated fails: after typing a space, \<open>l\<close> and \<open>s\<close> the buffer is
  \<open>" ls"\<close>, and the commit appends \<open>"ls"\<close>, not the buffer.
\<close>

theorem commit_verbatim_counterexample:
  "(case inputs (newFakeShell (newCLI newVFS defaultEnv [])) [js '' '', js ''l'', js ''s''] of
      Inl e \<Rightarrow> False
    | Inr s \<Rightarrow> inputBuffer s = js '' ls'' \<and> commandHistory s = [])
   \<and> (case inputs (newFakeShell (newCLI newVFS defaultEnv [])) [js '' '', js ''l'', js ''s'', [13]] of
      Inl e \<Rightarrow> False
    | Inr s \<Rightarrow> commandHistory s = [js ''ls''] \<and> commandHistory s \<noteq> [js '' ls''])"
proof -
  let ?c = "newCLI newVFS defaultEnv []"
  let ?s = "(newFakeShell ?c)\<lparr>inputBuffer := js '' ls'', cursorPosition := 3\<rparr>"
  have a: "inputs (newFakeShell ?c) [js '' '', js ''l'', js ''s''] = Inr ?s"
    by (rule typed_ls)
  have idle: "\<not> isProcessing ?s" by (simp add: newFakeShell_def)
  have ne: "js_trim (inputBuffer ?s) \<noteq> []" by (simp add: trim_ls) (simp add: js_def)
  have b: "inputs (newFakeShell ?c) [js '' '', js ''l'', js ''s'', [13]] = Inr (executeCommand ?s)"
    using a commit_records(1) [OF idle ne]
    by (simp add: handleInput_def insertChar_def newFakeShell_def js_def slice_def sliceFrom_def
        sliceIndex_def)
  have c: "commandHistory (executeCommand ?s) = [js ''ls'']"
    using commit_records(2) [OF idle ne] by (simp add: trim_ls newFakeShell_def)
  have d: "[js ''ls''] \<noteq> [js '' ls'']" by (simp add: js_def)
  show ?thesis
    unfolding a b using c d by (simp add: newFakeShell_def)
qed

text \<open>
  C10. The constructor's state satisfies the bounds
  \<open>0 \<le> cursorPosition \<le> inputBuffer.length\<close> and
  \<open>-1 \<le> historyIndex \<le> commandHistory.length - 1\<close>; from a state that satisfies
  them, every input event is handled without an exception and leads to a state that
  satisfies them, and so does the resumption of \<open>executeCommand\<close> when the command
  has settled; hence every reachable state satisfies them.
\<close>

theorem editor_invariant_preserved:
  "editorInvariant (newFakeShell c)
   \<and> (editorInvariant s \<longrightarrow> (\<exists>s'. handleInput s data = Inr s' \<and> editorInvariant s'))
   \<and> (editorInvariant s \<longrightarrow> editorInvariant (executeCommandResumed s))
   \<and> (reachable s \<longrightarrow> editorInvariant s)"
  using newFakeShell_invariant handleInput_invariant executeCommandResumed_invariant
    reachable_invariant by blast

theorem editor_invariant_preserved_witness:
  "editorInvariant (newFakeShell (newCLI newVFS defaultEnv []))
   \<and> reachable (newFakeShell (newCLI newVFS defaultEnv []))
   \<and> (\<exists>s'. handleInput (newFakeShell (newCLI newVFS defaultEnv [])) (js ''x'') = Inr s'
          \<and> editorInvariant s')
   \<and> editorInvariant (executeCommandResumed (newFakeShell (newCLI newVFS defaultEnv [])))"
  using editor_invariant_preserved [of "newCLI newVFS defaultEnv []"
      "newFakeShell (newCLI newVFS defaultEnv [])" "js ''x''"]
    reachable.start [of "newCLI newVFS defaultEnv []"]
  by blast

end
